theory Spec2Isabelle
  imports Main "HOL-Library.Word"
begin

unbundle bit_operations_syntax

section \<open>Data model\<close>

text \<open>
  The verified code is \<^verbatim>\<open>src/SatTest/SatTest.py\<close> (frame classifier, pattern miner,
  fuzz engine, mode branches) and \<^verbatim>\<open>src/GNURadio/recording.py\<close> (control channel of
  the recorder). A Python \<^verbatim>\<open>bytes\<close> or \<^verbatim>\<open>bytearray\<close> value is a list of 8-bit words.
\<close>

type_synonym byte = "8 word"

text \<open>
  \<^verbatim>\<open>check_protocol\<close> returns the string \<^verbatim>\<open>"DVB-S2"\<close>, the string \<^verbatim>\<open>"CCSDS"\<close> or
  \<^verbatim>\<open>None\<close>; the constructor \<open>Unknown\<close> stands for \<^verbatim>\<open>None\<close>.
\<close>

datatype protocol = DVBS2 | CCSDS | Unknown

subsection \<open>Frame classifier\<close>

text \<open>
  \<^verbatim>\<open>
  def check_protocol(data):
      if len(data) >= 10:
          if data[0] == 0x47:
              return "DVB-S2"
          elif data[0:3] == b'\x1A\xCF\xFC':
              return "CCSDS"
      return None
  \<close>
  The slice \<^verbatim>\<open>data[0:3]\<close> is \<open>take 3 data\<close>; \<^verbatim>\<open>data[0]\<close> is only read when the
  buffer holds at least ten bytes.
\<close>

definition check_protocol :: "byte list \<Rightarrow> protocol" where
  "check_protocol data =
     (if 10 \<le> length data then
        (if data ! 0 = 0x47 then DVBS2
         else if take 3 data = [0x1A, 0xCF, 0xFC] then CCSDS
         else Unknown)
      else Unknown)"

subsection \<open>Python values used by the code\<close>

text \<open>
  A Python \<^verbatim>\<open>str\<close> is the list of its code points; \<open>str_of\<close> writes an ASCII literal
  of the source as such a list. The exceptions the modelled code can raise are values
  of \<open>error\<close>, and a computation that may raise returns \<open>error + 'a\<close> with \<open>Inl\<close>
  for the exception.
\<close>

type_synonym pystr = "nat list"

definition str_of :: "string \<Rightarrow> pystr" where
  "str_of s = map of_char s"

datatype error =
    ValueError
  | IndexError
  | AttributeError
  | UnicodeDecodeError
  | UnicodeEncodeError
  | RuntimeError pystr

definition bind_err :: "error + 'a \<Rightarrow> ('a \<Rightarrow> error + 'b) \<Rightarrow> error + 'b" where
  "bind_err m f = (case m of Inl e \<Rightarrow> Inl e | Inr x \<Rightarrow> f x)"

fun fold_err :: "('s \<Rightarrow> 'a \<Rightarrow> error + 's) \<Rightarrow> 's \<Rightarrow> 'a list \<Rightarrow> error + 's" where
  "fold_err f s [] = Inr s"
| "fold_err f s (x # xs) = bind_err (f s x) (\<lambda>s'. fold_err f s' xs)"

text \<open>
  The value \<^verbatim>\<open>build_common_values_from_file\<close> returns is the \<^verbatim>\<open>str\<close> it starts from
  (\<^verbatim>\<open>longest_common_substring = ""\<close>) or a \<^verbatim>\<open>bytes\<close> slice of the file; the two
  kinds behave differently under \<^verbatim>\<open>==\<close> in \<^verbatim>\<open>heuristic_fuzz\<close>, so both are kept.
\<close>

datatype pattern = StrVal pystr | BytesVal "byte list"

fun py_len :: "pattern \<Rightarrow> nat" where
  "py_len (StrVal s) = length s"
| "py_len (BytesVal b) = length b"

text \<open>
  \<^verbatim>\<open>bytearray == x\<close>: equality of contents against \<^verbatim>\<open>bytes\<close>, and \<^verbatim>\<open>False\<close> against
  a \<^verbatim>\<open>str\<close> whatever the two hold.
\<close>

fun bytearray_eq :: "byte list \<Rightarrow> pattern \<Rightarrow> bool" where
  "bytearray_eq b (StrVal s) = False"
| "bytearray_eq b (BytesVal c) = (b = c)"

text \<open>
  \<^verbatim>\<open>buf[i] = v\<close> on a \<^verbatim>\<open>bytearray\<close>: the value must be an integer in
  \<^verbatim>\<open>range(0, 256)\<close> (\<^verbatim>\<open>ValueError: byte must be in range(0, 256)\<close> otherwise) and the
  index must be inside the buffer (\<^verbatim>\<open>IndexError\<close> otherwise). Every index the
  modelled code writes is inside the buffer, so the order of the two checks is not
  observable here.
\<close>

definition bytearray_setitem :: "byte list \<Rightarrow> nat \<Rightarrow> int \<Rightarrow> error + byte list" where
  "bytearray_setitem buf i v =
     (if v < 0 \<or> 255 < v then Inl ValueError
      else if length buf \<le> i then Inl IndexError
      else Inr (buf[i := word_of_int v]))"

subsection \<open>Random source\<close>

text \<open>
  The module-level generator of \<^verbatim>\<open>random\<close> is made explicit: a random source is the
  infinite sequence of its raw draws, and every call consumes the next one.
  \<^item> \<^verbatim>\<open>random.randint(a, b)\<close> is \<open>a\<close> plus a draw below \<open>b - a + 1\<close>;
  \<^item> \<^verbatim>\<open>random.choice(seq)\<close> is the element at a draw below \<^verbatim>\<open>len(seq)\<close>, and raises
    \<^verbatim>\<open>IndexError\<close> on an empty sequence;
  \<^item> \<^verbatim>\<open>random.random()\<close> is \<open>k / 2^53\<close> for a 53-bit draw \<open>k\<close>; the double nearest to
    \<^verbatim>\<open>0.05\<close> is \<open>3602879701896397 / 2^56\<close>, so \<^verbatim>\<open>random.random() < 0.05\<close> is
    \<open>8 * k < 3602879701896397\<close>.
  Theorems quantify over all sources, so they hold for whatever the generator draws.
\<close>

type_synonym rng = "nat \<Rightarrow> nat"

definition draw :: "rng \<Rightarrow> nat \<times> rng" where
  "draw g = (g 0, \<lambda>k. g (Suc k))"

definition randint :: "int \<Rightarrow> int \<Rightarrow> rng \<Rightarrow> int \<times> rng" where
  "randint a b g = (case draw g of (k, g') \<Rightarrow> (a + int (k mod nat (b - a + 1)), g'))"

definition choice :: "'a list \<Rightarrow> rng \<Rightarrow> error + ('a \<times> rng)" where
  "choice seq g =
     (if seq = [] then Inl IndexError
      else case draw g of (k, g') \<Rightarrow> Inr (seq ! (k mod length seq), g'))"

definition random_below_0_05 :: "rng \<Rightarrow> bool \<times> rng" where
  "random_below_0_05 g =
     (case draw g of (k, g') \<Rightarrow> (8 * (k mod 2 ^ 53) < 3602879701896397, g'))"

subsection \<open>Pattern miner\<close>

text \<open>
  \<^verbatim>\<open>data.count(segment)\<close> counts the occurrences of \<^verbatim>\<open>segment\<close> that do not overlap,
  scanning from the left: after a match the search resumes behind it, after a
  mismatch one byte further. For the empty segment it is \<^verbatim>\<open>len(data) + 1\<close>.
\<close>

function count_from :: "'a list \<Rightarrow> 'a list \<Rightarrow> nat" where
  "count_from sub xs =
     (if sub = [] then length xs + 1
      else if length xs < length sub then 0
      else if take (length sub) xs = sub then Suc (count_from sub (drop (length sub) xs))
      else count_from sub (tl xs))"
  by pat_completeness auto
termination
proof (relation "measure (\<lambda>(sub, xs). length xs)")
  show "wf (measure (\<lambda>(sub :: 'a list, xs :: 'a list). length xs))"
    by simp
next
  fix sub xs :: "'a list"
  assume "sub \<noteq> []" and "\<not> length xs < length sub"
  then have "0 < length sub" and "0 < length xs"
    by (cases sub; cases xs; simp)+
  then show "((sub, drop (length sub) xs), (sub, xs)) \<in> measure (\<lambda>(sub, xs). length xs)"
    by simp
next
  fix sub xs :: "'a list"
  assume "sub \<noteq> []" and "\<not> length xs < length sub"
  then have "0 < length xs"
    by (cases sub; cases xs; simp)
  then show "((sub, tl xs), (sub, xs)) \<in> measure (\<lambda>(sub, xs). length xs)"
    by simp
qed

text \<open>The equation of \<open>count_from\<close> is unfolded by hand, one case at a time.\<close>

declare count_from.simps [simp del]

definition py_count :: "byte list \<Rightarrow> byte list \<Rightarrow> nat" where
  "py_count data segment = count_from segment data"

text \<open>
  \<^verbatim>\<open>
  def build_common_values_from_file(filepath):
      with open(filepath, "rb") as f:
          data = f.read()
      n = len(data)
      longest_common_substring = ""
      for length in range(1, n):
          for start in range(n - length):
              segment = data[start:start + length]
              count = data.count(segment)
              if count > 1 and len(segment) > len(longest_common_substring):
                  longest_common_substring = segment
      return longest_common_substring
  \<close>
  The model takes the bytes read from the file. \<open>mine_step\<close> is the body of the inner
  loop, \<open>mine_length\<close> the inner loop for one \<^verbatim>\<open>length\<close>, and the function itself the
  outer loop.
\<close>

definition mine_step :: "byte list \<Rightarrow> nat \<Rightarrow> pattern \<Rightarrow> nat \<Rightarrow> pattern" where
  "mine_step data len longest start =
     (let segment = take len (drop start data);
          count = py_count data segment
      in if 1 < count \<and> py_len longest < length segment then BytesVal segment else longest)"

definition mine_length :: "byte list \<Rightarrow> pattern \<Rightarrow> nat \<Rightarrow> pattern" where
  "mine_length data longest len =
     foldl (mine_step data len) longest [0..<length data - len]"

definition build_common_values_from_file :: "byte list \<Rightarrow> pattern" where
  "build_common_values_from_file data =
     foldl (mine_length data) (StrVal []) [1..<length data]"

text \<open>
  The words of the specification about repeated sequences. A sequence occurs at offset
  \<open>i\<close> of a buffer when the slice of its length that starts there equals it;
  \<open>occurrences\<close> lists all such offsets, overlapping or not; a sequence repeats
  disjointly when two of its occurrences do not overlap.
\<close>

definition occurs_at :: "'a list \<Rightarrow> 'a list \<Rightarrow> nat \<Rightarrow> bool" where
  "occurs_at seg data i =
     (i + length seg \<le> length data \<and> take (length seg) (drop i data) = seg)"

definition occurrences :: "'a list \<Rightarrow> 'a list \<Rightarrow> nat list" where
  "occurrences seg data = filter (occurs_at seg data) [0..<Suc (length data)]"

definition repeats_disjoint :: "'a list \<Rightarrow> 'a list \<Rightarrow> bool" where
  "repeats_disjoint seg data =
     (\<exists>i j. occurs_at seg data i \<and> occurs_at seg data j \<and> i + length seg \<le> j)"

text \<open>
  The test of \<open>mine_step\<close> on the count alone, and the state of the outer loop before
  the round for length \<open>k\<close>: either nothing was accepted so far, or the result is the
  candidate of the greatest accepted length below \<open>k\<close> at its least accepted offset.
\<close>

definition accepted :: "byte list \<Rightarrow> nat \<Rightarrow> nat \<Rightarrow> bool" where
  "accepted data len start = (1 < py_count data (take len (drop start data)))"

definition mined :: "byte list \<Rightarrow> nat \<Rightarrow> pattern \<Rightarrow> bool" where
  "mined data k r =
     ((r = StrVal []
        \<and> (\<forall>l s. 0 < l \<and> l < k \<and> s < length data - l \<longrightarrow> \<not> accepted data l s))
      \<or> (\<exists>l s. 0 < l \<and> l < k \<and> s < length data - l
            \<and> r = BytesVal (take l (drop s data)) \<and> accepted data l s
            \<and> (\<forall>s' < s. \<not> accepted data l s')
            \<and> (\<forall>l' s'. l < l' \<and> l' < k \<and> s' < length data - l'
                  \<longrightarrow> \<not> accepted data l' s')))"

subsection \<open>Fuzz engine\<close>

text \<open>
  \<^verbatim>\<open>
  def random_fuzz(data):
      fuzzed_data = bytearray(data)
      for i in range(len(fuzzed_data)):
          if random.random() < 0.05:
              fuzzed_data[i] = random.randint(0, 255)
      return fuzzed_data
  \<close>
  The loop state is the buffer and the random source.
\<close>

definition random_fuzz_step :: "byte list \<times> rng \<Rightarrow> nat \<Rightarrow> error + (byte list \<times> rng)" where
  "random_fuzz_step s i =
     (case s of (fuzzed_data, g) \<Rightarrow>
        (case random_below_0_05 g of (hit, g1) \<Rightarrow>
           if hit then
             (case randint 0 255 g1 of (v, g2) \<Rightarrow>
                bind_err (bytearray_setitem fuzzed_data i v) (\<lambda>b. Inr (b, g2)))
           else Inr (fuzzed_data, g1)))"

definition random_fuzz :: "rng \<Rightarrow> byte list \<Rightarrow> error + (byte list \<times> rng)" where
  "random_fuzz g data = fold_err random_fuzz_step (data, g) [0..<length data]"

text \<open>
  The first pass of \<^verbatim>\<open>heuristic_fuzz\<close>:
  \<^verbatim>\<open>
      fuzzed_data = bytearray(data)
      common_value_len = len(common_value)
      for i in range(len(fuzzed_data) - common_value_len + 1):
          if fuzzed_data[i:i + common_value_len] == common_value:
              for j in range(common_value_len):
                  fuzzed_data[i + j] ^= 0xFF
  \<close>
  The range is empty when the pattern is longer than the buffer plus one, as the
  truncating subtraction on \<open>nat\<close> makes it. Inside the loop \<open>i + j\<close> is below the
  length of the buffer.
\<close>

definition xor_window :: "byte list \<Rightarrow> nat \<Rightarrow> nat \<Rightarrow> byte list" where
  "xor_window buf i n = foldl (\<lambda>b j. b[i + j := b ! (i + j) XOR 0xFF]) buf [0..<n]"

definition xor_step :: "pattern \<Rightarrow> byte list \<Rightarrow> nat \<Rightarrow> byte list" where
  "xor_step common_value buf i =
     (if bytearray_eq (take (py_len common_value) (drop i buf)) common_value
      then xor_window buf i (py_len common_value)
      else buf)"

definition xor_pass :: "byte list \<Rightarrow> pattern \<Rightarrow> byte list" where
  "xor_pass data common_value =
     foldl (xor_step common_value) data [0..<length data + 1 - py_len common_value]"

text \<open>
  The field assignments of the two protocol branches, in the order of the source: each
  right-hand side draws from the random source, then the byte is stored.
  \<^verbatim>\<open>
      fuzzed_data[1] = random.randint(0, 15)            # MODCOD
      fuzzed_data[2] = random.choice([0, 1])            # PILOT
      fuzzed_data[3] = random.randint(20, 35)           # ROLL-OFF
      fuzzed_data[4] = random.choice([16200, 64800])    # FRAME LENGTH
  \<close>
\<close>

definition dvbs2_fields :: "rng \<Rightarrow> byte list \<Rightarrow> error + (byte list \<times> rng)" where
  "dvbs2_fields g buf =
     (case randint 0 15 g of (modcod, g1) \<Rightarrow>
      bind_err (bytearray_setitem buf 1 modcod) (\<lambda>b1.
      bind_err (choice [0, 1] g1) (\<lambda>(pilot, g2).
      bind_err (bytearray_setitem b1 2 pilot) (\<lambda>b2.
      case randint 20 35 g2 of (rolloff, g3) \<Rightarrow>
      bind_err (bytearray_setitem b2 3 rolloff) (\<lambda>b3.
      bind_err (choice [16200, 64800] g3) (\<lambda>(frame_length, g4).
      bind_err (bytearray_setitem b3 4 frame_length) (\<lambda>b4.
      Inr (b4, g4))))))))"

text \<open>
  \<^verbatim>\<open>
      fuzzed_data[1] = random.randint(1, 255)           # SPACECRAFT ID
      fuzzed_data[2] = random.randint(0, 7)             # VIRTUAL CHANNEL ID
      fuzzed_data[3] = random.randint(1, 10)            # FRAME LENGTH
      fuzzed_data[4] = random.choice([True, False])     # REED-SOLOMON ENCODING
  \<close>
  \<^verbatim>\<open>True\<close> and \<^verbatim>\<open>False\<close> are the integers 1 and 0 when stored in a \<^verbatim>\<open>bytearray\<close>.
\<close>

definition ccsds_fields :: "rng \<Rightarrow> byte list \<Rightarrow> error + (byte list \<times> rng)" where
  "ccsds_fields g buf =
     (case randint 1 255 g of (spacecraft_id, g1) \<Rightarrow>
      bind_err (bytearray_setitem buf 1 spacecraft_id) (\<lambda>b1.
      case randint 0 7 g1 of (virtual_channel, g2) \<Rightarrow>
      bind_err (bytearray_setitem b1 2 virtual_channel) (\<lambda>b2.
      case randint 1 10 g2 of (frame_length, g3) \<Rightarrow>
      bind_err (bytearray_setitem b2 3 frame_length) (\<lambda>b3.
      bind_err (choice [1, 0] g3) (\<lambda>(reed_solomon, g4).
      bind_err (bytearray_setitem b3 4 reed_solomon) (\<lambda>b4.
      Inr (b4, g4)))))))"

text \<open>
  \<^verbatim>\<open>
  def heuristic_fuzz(data, common_value):
      ... the XOR pass ...
      protocol = check_protocol(fuzzed_data)
      if protocol == "DVB-S2":
          ...
      elif protocol == "CCSDS":
          ...
      return fuzzed_data
  \<close>
\<close>

definition heuristic_fuzz :: "rng \<Rightarrow> byte list \<Rightarrow> pattern \<Rightarrow> error + (byte list \<times> rng)" where
  "heuristic_fuzz g data common_value =
     (let fuzzed_data = xor_pass data common_value;
          protocol = check_protocol fuzzed_data
      in if protocol = DVBS2 then dvbs2_fields g fuzzed_data
         else if protocol = CCSDS then ccsds_fields g fuzzed_data
         else Inr (fuzzed_data, g))"

subsection \<open>Text: UTF-8 and whitespace\<close>

text \<open>
  \<^verbatim>\<open>bytes.decode("utf-8")\<close> is strict: it raises \<^verbatim>\<open>UnicodeDecodeError\<close> on a byte
  sequence that is not well-formed UTF-8 (a stray continuation byte, a truncated or
  overlong sequence, a surrogate, a code point above U+10FFFF). \<open>utf8_code_points\<close>
  reads the bytes by their first byte, with the ranges the second byte may take.
\<close>

definition continuation :: "nat \<Rightarrow> bool" where
  "continuation b = (0x80 \<le> b \<and> b \<le> 0xBF)"

fun utf8_code_points :: "nat list \<Rightarrow> pystr option" where
  "utf8_code_points [] = Some []"
| "utf8_code_points (b0 # bs) =
     (if b0 < 0x80 then map_option (Cons b0) (utf8_code_points bs)
      else if 0xC2 \<le> b0 \<and> b0 \<le> 0xDF then
        (case bs of
           b1 # r \<Rightarrow>
             if continuation b1
             then map_option (Cons ((b0 - 0xC0) * 64 + (b1 - 0x80))) (utf8_code_points r)
             else None
         | _ \<Rightarrow> None)
      else if 0xE0 \<le> b0 \<and> b0 \<le> 0xEF then
        (case bs of
           b1 # b2 # r \<Rightarrow>
             if (if b0 = 0xE0 then 0xA0 else 0x80) \<le> b1
                \<and> b1 \<le> (if b0 = 0xED then 0x9F else 0xBF)
                \<and> continuation b2
             then map_option
                    (Cons ((b0 - 0xE0) * 4096 + (b1 - 0x80) * 64 + (b2 - 0x80)))
                    (utf8_code_points r)
             else None
         | _ \<Rightarrow> None)
      else if 0xF0 \<le> b0 \<and> b0 \<le> 0xF4 then
        (case bs of
           b1 # b2 # b3 # r \<Rightarrow>
             if (if b0 = 0xF0 then 0x90 else 0x80) \<le> b1
                \<and> b1 \<le> (if b0 = 0xF4 then 0x8F else 0xBF)
                \<and> continuation b2 \<and> continuation b3
             then map_option
                    (Cons ((b0 - 0xF0) * 262144 + (b1 - 0x80) * 4096
                           + (b2 - 0x80) * 64 + (b3 - 0x80)))
                    (utf8_code_points r)
             else None
         | _ \<Rightarrow> None)
      else None)"

definition utf8_decode :: "byte list \<Rightarrow> error + pystr" where
  "utf8_decode bs =
     (case utf8_code_points (map unat bs) of
        None \<Rightarrow> Inl UnicodeDecodeError
      | Some s \<Rightarrow> Inr s)"

text \<open>
  \<^verbatim>\<open>str.encode("utf-8")\<close> raises \<^verbatim>\<open>UnicodeEncodeError\<close> on a surrogate (which a
  command-line argument can hold); a value above U+10FFFF is no code point of a
  \<^verbatim>\<open>str\<close> and is refused the same way.
\<close>

definition utf8_encode_cp :: "nat \<Rightarrow> byte list option" where
  "utf8_encode_cp c =
     (if c < 0x80 then Some [of_nat c]
      else if c < 0x800 then Some [of_nat (0xC0 + c div 64), of_nat (0x80 + c mod 64)]
      else if c < 0x10000 then
        (if 0xD800 \<le> c \<and> c \<le> 0xDFFF then None
         else Some [of_nat (0xE0 + c div 4096), of_nat (0x80 + c div 64 mod 64),
                    of_nat (0x80 + c mod 64)])
      else if c < 0x110000 then
        Some [of_nat (0xF0 + c div 262144), of_nat (0x80 + c div 4096 mod 64),
              of_nat (0x80 + c div 64 mod 64), of_nat (0x80 + c mod 64)]
      else None)"

fun utf8_encode :: "pystr \<Rightarrow> error + byte list" where
  "utf8_encode [] = Inr []"
| "utf8_encode (c # cs) =
     (case utf8_encode_cp c of
        None \<Rightarrow> Inl UnicodeEncodeError
      | Some bs \<Rightarrow> bind_err (utf8_encode cs) (\<lambda>rest. Inr (bs @ rest)))"

text \<open>
  \<^verbatim>\<open>str.strip()\<close> removes the leading and trailing characters for which
  \<^verbatim>\<open>str.isspace\<close> holds.
\<close>

definition isspace :: "nat \<Rightarrow> bool" where
  "isspace c =
     ((0x09 \<le> c \<and> c \<le> 0x0D) \<or> (0x1C \<le> c \<and> c \<le> 0x20) \<or> c = 0x85 \<or> c = 0xA0
      \<or> c = 0x1680 \<or> (0x2000 \<le> c \<and> c \<le> 0x200A) \<or> c = 0x2028 \<or> c = 0x2029
      \<or> c = 0x202F \<or> c = 0x205F \<or> c = 0x3000)"

definition strip :: "pystr \<Rightarrow> pystr" where
  "strip s = rev (dropWhile isspace (rev (dropWhile isspace s)))"

subsection \<open>SignalJamming\<close>

text \<open>
  \<^verbatim>\<open>
  def send_signal_params_to_generation(freq, power, bandwidth):
      client = socket.socket(socket.AF_INET, socket.SOCK_STREAM)
      client.connect(("127.0.0.1", 6789))
      params = f"freq={freq};power={power};bandwidth={bandwidth}"
      client.send(params.encode("utf-8"))
      client.close()
  \<close>
  The effect of the function is the sequence of calls it makes on the socket, with the
  exception that ended it, if any. The collaborator is taken to accept the connection.
\<close>

datatype sock_call = Connect pystr nat | Send "byte list" | Close

definition send_signal_params_to_generation ::
    "pystr \<Rightarrow> pystr \<Rightarrow> pystr \<Rightarrow> sock_call list \<times> error option" where
  "send_signal_params_to_generation freq power' bandwidth =
     (let params = str_of ''freq='' @ freq @ str_of '';power='' @ power'
                   @ str_of '';bandwidth='' @ bandwidth
      in case utf8_encode params of
           Inl e \<Rightarrow> ([Connect (str_of ''127.0.0.1'') 6789], Some e)
         | Inr payload \<Rightarrow>
             ([Connect (str_of ''127.0.0.1'') 6789, Send payload, Close], None))"

text \<open>
  The namespace \<^verbatim>\<open>parse_args\<close> returns, as far as the SignalJamming path reads it: the
  mode, and the three options, each \<^verbatim>\<open>None\<close> when it was not supplied.
  \<^verbatim>\<open>
  elif args.mode == "SignalJamming":
      freq = args.freq if args.freq else "2.4G"
      power = args.power if args.power else "30"
      bandwidth = args.bandwidth if args.bandwidth else "10M"
      send_signal_params_to_generation(freq, power, bandwidth)
  \<close>
  \<^verbatim>\<open>x if x else d\<close> takes the default for \<^verbatim>\<open>None\<close> and for the empty string.
  The parameter and the field \<^verbatim>\<open>power\<close> are written \<open>power'\<close>.
  \<open>signal_jamming_branch\<close> is the body of the branch alone; the script reaches it
  only through \<open>sat_test\<close> below.
\<close>

record namespace =
  mode :: pystr
  freq :: "pystr option"
  power' :: "pystr option"
  bandwidth :: "pystr option"

definition if_else :: "pystr option \<Rightarrow> pystr \<Rightarrow> pystr" where
  "if_else x d = (case x of None \<Rightarrow> d | Some s \<Rightarrow> if s = [] then d else s)"

definition signal_jamming_branch :: "namespace \<Rightarrow> sock_call list \<times> error option" where
  "signal_jamming_branch args =
     (let f = if_else (freq args) (str_of ''2.4G'');
          p = if_else (power' args) (str_of ''30'');
          b = if_else (bandwidth args) (str_of ''10M'')
      in send_signal_params_to_generation f p b)"

subsection \<open>The script\<close>

text \<open>
  The module runs its statements in order when the script is started. Before any mode
  branch it builds the parser and parses the command line:
  \<^verbatim>\<open>
  parser = argparse.ArgumentParser(description="...")
  parser.add_argument("--mode", type=str, choices=[...], required=True, help="...")
  parser.add_argument("--recordTime", type=int, default=60, help="...")
  parser.add.argument("--fuzzing", type=str, choices=[...], required=True, help="...")
  parser.add.argument("--freq", type=str, help="...")
  parser.add.argument("--power", type.str, help="...")
  parser.add.argument("--bandwidth", type.str, help="...")
  parser.add.argument("--lat", type.float, required=True, help="...")
  parser.add.argument("--lon", type.float, required=True, help="...")
  parser.add.argument("--altitude", type.float, required=True, help="...")
  parser.add.argument("--time", type.int, required=True, help="...")
  args = parser.parse_args()
  \<close>
  A statement of the set-up is \<^verbatim>\<open>parser.add_argument(name, ...)\<close>, which registers the
  option, or \<^verbatim>\<open>parser.add.argument(name, ...)\<close>. In the second form Python evaluates
  \<^verbatim>\<open>parser.add\<close> first, before any argument of the call, and an \<^verbatim>\<open>ArgumentParser\<close> has
  no attribute \<^verbatim>\<open>add\<close>: the lookup raises \<^verbatim>\<open>AttributeError\<close>.
\<close>

datatype parser_call = Add_argument pystr | Add_dot_argument pystr

fun exec_parser_call :: "pystr list \<Rightarrow> parser_call \<Rightarrow> error + pystr list" where
  "exec_parser_call options (Add_argument name) = Inr (options @ [name])"
| "exec_parser_call options (Add_dot_argument name) = Inl AttributeError"

definition parser_calls :: "parser_call list" where
  "parser_calls =
     [Add_argument (str_of ''--mode''),
      Add_argument (str_of ''--recordTime''),
      Add_dot_argument (str_of ''--fuzzing''),
      Add_dot_argument (str_of ''--freq''),
      Add_dot_argument (str_of ''--power''),
      Add_dot_argument (str_of ''--bandwidth''),
      Add_dot_argument (str_of ''--lat''),
      Add_dot_argument (str_of ''--lon''),
      Add_dot_argument (str_of ''--altitude''),
      Add_dot_argument (str_of ''--time'')]"

text \<open>
  A run of the script on a command line. \<^verbatim>\<open>parse_args\<close> is the library's function of
  the registered options and the command line, to a namespace or to the exception it
  ends the script with. The outcome of a run is the exception that ended the script
  before a branch ran, or the socket calls of the SignalJamming branch, or one of the
  other three branches, which are not followed here.
  \<^verbatim>\<open>
  if args.mode == "SignalReplay": ...
  elif args.mode == "SignalFuzzing": ...
  elif args.mode == "SignalJamming": ...
  elif args.mode == "GNSSAttacking": ...
  \<close>
\<close>

datatype outcome =
    Raised error
  | Jamming "sock_call list \<times> error option"
  | Other_mode

definition sat_test ::
    "(pystr list \<Rightarrow> pystr list \<Rightarrow> error + namespace) \<Rightarrow> pystr list \<Rightarrow> outcome" where
  "sat_test parse_args argv =
     (case fold_err exec_parser_call [] parser_calls of
        Inl e \<Rightarrow> Raised e
      | Inr options \<Rightarrow>
          (case parse_args options argv of
             Inl e \<Rightarrow> Raised e
           | Inr args \<Rightarrow>
               if mode args = str_of ''SignalReplay'' then Other_mode
               else if mode args = str_of ''SignalFuzzing'' then Other_mode
               else if mode args = str_of ''SignalJamming''
                 then Jamming (signal_jamming_branch args)
               else Other_mode))"

subsection \<open>Collaborator processes\<close>

text \<open>
  \<^verbatim>\<open>print\<close> encodes the line with the encoding of the standard output and raises
  \<^verbatim>\<open>UnicodeEncodeError\<close> when a character has no encoding there. The encoding is given
  by the code points above ASCII it can encode (ASCII itself is taken to be encodable
  everywhere). A function that prints returns the lines it printed.
\<close>

type_synonym stdout_encoding = "nat \<Rightarrow> bool"

definition py_print :: "stdout_encoding \<Rightarrow> pystr \<Rightarrow> error + pystr" where
  "py_print enc line =
     (if list_all (\<lambda>c. c < 0x80 \<or> enc c) line then Inr line else Inl UnicodeEncodeError)"

text \<open>
  \<^verbatim>\<open>subprocess.Popen(cmd, stdout=PIPE, stderr=PIPE)\<close> followed by
  \<^verbatim>\<open>process.communicate()\<close> is a function of the environment from the command line
  to the bytes of the two streams.
  \<^verbatim>\<open>
  def generate_and_send_gnss_signal(lat, lon, altitude, time):
      default_nav_file = "brdc3540.14n"
      cmd = ["gps-sdr-sim", "-e", default_nav_file, "-l", f"{lat},{lon},{altitude}",
             "-t", str(time), "-s", "pluto"]
      process = subprocess.Popen(cmd, stdout=subprocess.PIPE, stderr=subprocess.PIPE)
      output, error = process.communicate()
      if error:
          raise RuntimeError(f"Error in GPS-SDR-SIM: {error.decode()}")
      else:
          print("GNSS Signal Generation Output:", output.decode())
  \<close>
  The four arguments are given as the text their formatting produces.
\<close>

type_synonym process_env = "pystr list \<Rightarrow> byte list \<times> byte list"

definition gnss_cmd :: "pystr \<Rightarrow> pystr \<Rightarrow> pystr \<Rightarrow> pystr \<Rightarrow> pystr list" where
  "gnss_cmd lat lon altitude time =
     (let default_nav_file = str_of ''brdc3540.14n''
      in [str_of ''gps-sdr-sim'', str_of ''-e'', default_nav_file,
          str_of ''-l'', lat @ str_of '','' @ lon @ str_of '','' @ altitude,
          str_of ''-t'', time, str_of ''-s'', str_of ''pluto''])"

definition generate_and_send_gnss_signal ::
    "stdout_encoding \<Rightarrow> process_env \<Rightarrow> pystr \<Rightarrow> pystr \<Rightarrow> pystr \<Rightarrow> pystr
       \<Rightarrow> error + pystr list" where
  "generate_and_send_gnss_signal enc popen lat lon altitude time =
     (case popen (gnss_cmd lat lon altitude time) of (output, err) \<Rightarrow>
        if err \<noteq> [] then
          bind_err (utf8_decode err) (\<lambda>msg.
            Inl (RuntimeError (str_of ''Error in GPS-SDR-SIM: '' @ msg)))
        else
          bind_err (utf8_decode output) (\<lambda>out.
          bind_err (py_print enc (str_of ''GNSS Signal Generation Output: '' @ out)) (\<lambda>line.
            Inr [line])))"

text \<open>
  \<^verbatim>\<open>
  def run_gnuradio_script(script, args=None):
      if args:
          cmd = ["python3", script] + args
      else:
          cmd = ["python3", script]
      process = subprocess.Popen(cmd, stdout=subprocess.PIPE, stderr=subprocess.PIPE)
      output, error = process.communicate()
      if error:
          print("Error:", error.decode())
      else:
          print("Output:", output.decode())
  \<close>
\<close>

definition gnuradio_cmd :: "pystr \<Rightarrow> pystr list option \<Rightarrow> pystr list" where
  "gnuradio_cmd script args =
     (case args of
        None \<Rightarrow> [str_of ''python3'', script]
      | Some a \<Rightarrow> if a \<noteq> [] then [str_of ''python3'', script] @ a
                  else [str_of ''python3'', script])"

definition run_gnuradio_script ::
    "stdout_encoding \<Rightarrow> process_env \<Rightarrow> pystr \<Rightarrow> pystr list option \<Rightarrow> error + pystr list" where
  "run_gnuradio_script enc popen script args =
     (case popen (gnuradio_cmd script args) of (output, err) \<Rightarrow>
        if err \<noteq> [] then
          bind_err (utf8_decode err) (\<lambda>msg.
          bind_err (py_print enc (str_of ''Error: '' @ msg)) (\<lambda>line. Inr [line]))
        else
          bind_err (utf8_decode output) (\<lambda>out.
          bind_err (py_print enc (str_of ''Output: '' @ out)) (\<lambda>line. Inr [line])))"

subsection \<open>Recorder control channel\<close>

text \<open>
  The state of \<^verbatim>\<open>SignalRecorder\<close> that its commands change: the attribute
  \<^verbatim>\<open>file_sink\<close> (\<^verbatim>\<open>None\<close> or a file sink block), the edges of the flowgraph from
  the source to file sinks, and what was printed. A file sink block is identified by
  the number of blocks created before it. The two messages printed are ASCII.
  \<^verbatim>\<open>
  def start_recording(self):
      self.file_sink = blocks.file_sink(gr.sizeof_gr_complex, "recorded_signal.dat")
      self.file_sink.set_unbuffered(True)
      self.connect((self.pluto_source, 0), (self.file_sink, 0))
      print("Recording started.")

  def stop_recording(self):
      if self.file_sink:
          self.disconnect((self.pluto_source, 0), (self.file_sink, 0))
          self.file_sink = None
          print("Recording stopped.")
  \<close>
\<close>

record recorder =
  file_sink :: "nat option"
  connections :: "nat list"
  sinks_created :: nat
  printed :: "pystr list"

definition start_recording :: "recorder \<Rightarrow> recorder" where
  "start_recording r =
     r\<lparr>file_sink := Some (sinks_created r),
       connections := connections r @ [sinks_created r],
       sinks_created := Suc (sinks_created r),
       printed := printed r @ [str_of ''Recording started.'']\<rparr>"

definition stop_recording :: "recorder \<Rightarrow> recorder" where
  "stop_recording r =
     (case file_sink r of
        None \<Rightarrow> r
      | Some sink \<Rightarrow>
          r\<lparr>connections := remove1 sink (connections r),
            file_sink := None,
            printed := printed r @ [str_of ''Recording stopped.'']\<rparr>)"

text \<open>
  \<^verbatim>\<open>
  def listen_for_commands(self):
      while True:
          conn, addr = self.tcp_server.accept()
          command = conn.recv(1024).decode("utf-8").strip()
          if command == "START":
              self.start_recording()
          elif command == "STOP":
              self.stop_recording()
          conn.close()
  \<close>
  \<open>serve_connection\<close> is one pass of the loop on the bytes \<^verbatim>\<open>recv\<close> returned: \<open>Inr\<close> when
  \<^verbatim>\<open>conn.close()\<close> was reached, \<open>Inl\<close> when the pass raised before it. Nothing in the
  loop catches an exception: a pass that raises ends the listener thread, the socket of
  that connection is released with the thread (the peer sees it closed, though
  \<^verbatim>\<open>conn.close()\<close> never ran), and no later connection is accepted. The loop runs
  over the connections that arrive, in their order; it ends blocked in \<^verbatim>\<open>accept\<close>
  when none is left, or with the exception that ended the thread. Its result is the
  state of the recorder, what became of each accepted connection, and the exception.
\<close>

datatype conn_end = ConnClosed | ConnReleased

definition serve_connection :: "recorder \<Rightarrow> byte list \<Rightarrow> error + recorder" where
  "serve_connection r received =
     bind_err (utf8_decode received) (\<lambda>decoded.
       let command = strip decoded
       in Inr (if command = str_of ''START'' then start_recording r
               else if command = str_of ''STOP'' then stop_recording r
               else r))"

fun listen_for_commands ::
    "recorder \<Rightarrow> byte list list \<Rightarrow> recorder \<times> conn_end list \<times> error option" where
  "listen_for_commands r [] = (r, [], None)"
| "listen_for_commands r (received # later) =
     (case serve_connection r received of
        Inl e \<Rightarrow> (r, [ConnReleased], Some e)
      | Inr r' \<Rightarrow>
          (case listen_for_commands r' later of
             (r'', ends, e) \<Rightarrow> (r'', ConnClosed # ends, e)))"

text \<open>
  The transition the specification gives a command: \<^verbatim>\<open>START\<close> starts recording,
  \<^verbatim>\<open>STOP\<close> stops it, and any other command changes nothing.
\<close>

definition control_transition :: "recorder \<Rightarrow> pystr \<Rightarrow> recorder" where
  "control_transition r command =
     (if command = str_of ''START'' then start_recording r
      else if command = str_of ''STOP'' then stop_recording r
      else r)"

section \<open>Frame classifier: properties\<close>

lemma check_protocol_short: "length data < 10 \<Longrightarrow> check_protocol data = Unknown"
  by (simp add: check_protocol_def)

lemma check_protocol_length: "check_protocol buf \<noteq> Unknown \<Longrightarrow> 10 \<le> length buf"
  by (simp add: check_protocol_def split: if_splits)

lemma take3_eq:
  "3 \<le> length xs \<Longrightarrow> (take 3 xs = [a, b, c]) = (xs ! 0 = a \<and> xs ! 1 = b \<and> xs ! 2 = c)"
  by (cases xs; cases "tl xs"; cases "tl (tl xs)") (auto simp: numeral_3_eq_3)

text \<open>
  Claim C4. The classifier applies its rules in order, the first match winning: a buffer
  shorter than 10 bytes is Unknown; else byte 0 equal to 0x47 gives DVB-S2; else bytes
  0..2 equal to 0x1A, 0xCF, 0xFC give CCSDS; else Unknown. The classifier is a function
  of the bytes of the buffer and returns only the tag, so it changes no buffer.
\<close>

theorem check_protocol_rules:
  "check_protocol data =
     (if length data < 10 then Unknown
      else if data ! 0 = 0x47 then DVBS2
      else if data ! 0 = 0x1A \<and> data ! 1 = 0xCF \<and> data ! 2 = 0xFC then CCSDS
      else Unknown)"
  by (simp add: check_protocol_def take3_eq)

theorem check_protocol_rules_witness:
  "check_protocol [0x1A, 0xCF, 0xFC, 0, 0, 0, 0, 0, 0, 0] = CCSDS
   \<and> check_protocol [0x47, 0xCF, 0xFC, 0, 0, 0, 0, 0, 0, 0] = DVBS2
   \<and> check_protocol [0x47, 0xCF, 0xFC] = Unknown
   \<and> check_protocol [0x1A, 0xCF, 0xFD, 0, 0, 0, 0, 0, 0, 0] = Unknown"
  using check_protocol_rules [of "[0x1A, 0xCF, 0xFC, 0, 0, 0, 0, 0, 0, 0]"]
    check_protocol_rules [of "[0x47, 0xCF, 0xFC, 0, 0, 0, 0, 0, 0, 0]"]
    check_protocol_rules [of "[0x47, 0xCF, 0xFC]"]
    check_protocol_rules [of "[0x1A, 0xCF, 0xFD, 0, 0, 0, 0, 0, 0, 0]"]
  by simp

text \<open>
  Claim C3, as stated, puts no restriction on the length of the buffer. The classifier
  tests the length first: the three bytes 0x1A, 0xCF, 0xFC alone are a buffer that
  starts with the CCSDS marker and is classified Unknown.
\<close>

theorem check_protocol_ccsds_short_counterexample:
  "take 3 [0x1A, 0xCF, 0xFC :: byte] = [0x1A, 0xCF, 0xFC]
   \<and> check_protocol [0x1A, 0xCF, 0xFC] = Unknown"
  by (simp add: check_protocol_def)

text \<open>
  Claim C3, amended: every buffer of at least 10 bytes whose first three bytes are
  0x1A, 0xCF, 0xFC is classified CCSDS.
\<close>

theorem check_protocol_ccsds:
  "10 \<le> length data \<Longrightarrow> data ! 0 = 0x1A \<Longrightarrow> data ! 1 = 0xCF \<Longrightarrow> data ! 2 = 0xFC
   \<Longrightarrow> check_protocol data = CCSDS"
  by (simp add: check_protocol_def take3_eq)

theorem check_protocol_ccsds_witness:
  "check_protocol [0x1A, 0xCF, 0xFC, 1, 2, 3, 4, 5, 6, 7] = CCSDS"
  using check_protocol_ccsds [of "[0x1A, 0xCF, 0xFC, 1, 2, 3, 4, 5, 6, 7]"]
  by simp

section \<open>SignalJamming: properties\<close>

text \<open>
  The body of the branch, when it runs with none of the three options supplied, sends
  the default parameter string and nothing else.
\<close>

lemma signal_jamming_branch_defaults:
  "freq args = None \<Longrightarrow> power' args = None \<Longrightarrow> bandwidth args = None \<Longrightarrow>
   signal_jamming_branch args =
     ([Connect (str_of ''127.0.0.1'') 6789,
       Send (map of_char ''freq=2.4G;power=30;bandwidth=10M''),
       Close], None)"
  by (simp add: signal_jamming_branch_def if_else_def send_signal_params_to_generation_def
      str_of_def utf8_encode_cp_def bind_err_def)

text \<open>
  Claim C5 says that the SignalJamming mode, invoked with none of freq, power and
  bandwidth supplied, sends exactly the bytes of \<^verbatim>\<open>freq=2.4G;power=30;bandwidth=10M\<close>
  to the generation control port. The script never reaches the branch: the third
  statement of the parser set-up (line 151) is \<^verbatim>\<open>parser.add.argument(...)\<close>, so on every
  command line, and whatever \<^verbatim>\<open>parse_args\<close> would return, the run ends with
  \<^verbatim>\<open>AttributeError\<close> before the command line is parsed; no socket is connected and
  nothing is sent.
\<close>

theorem sat_test_raises_before_parsing:
  "sat_test parse_args argv = Raised AttributeError"
  by (simp add: sat_test_def parser_calls_def bind_err_def)

section \<open>Fuzz engine: properties\<close>

subsection \<open>The XOR pass\<close>

lemma foldl_unchanged: "(\<And>b x. f b x = b) \<Longrightarrow> foldl f b xs = b"
  by (induction xs) simp_all

lemma foldl_preserves:
  "P b \<Longrightarrow> (\<And>b x. P b \<Longrightarrow> P (f b x)) \<Longrightarrow> P (foldl f b xs)"
  by (induction xs arbitrary: b) simp_all

lemma xor_step_empty: "py_len common_value = 0 \<Longrightarrow> xor_step common_value buf i = buf"
  by (simp add: xor_step_def xor_window_def)

lemma xor_pass_empty: "py_len common_value = 0 \<Longrightarrow> xor_pass data common_value = data"
  by (simp add: xor_pass_def xor_step_empty foldl_unchanged)

lemma length_xor_window: "length (xor_window buf i n) = length buf"
  unfolding xor_window_def by (rule foldl_preserves) simp_all

lemma length_xor_step: "length (xor_step common_value buf i) = length buf"
  by (simp add: xor_step_def length_xor_window)

lemma length_xor_pass: "length (xor_pass data common_value) = length data"
  unfolding xor_pass_def by (rule foldl_preserves) (simp_all add: length_xor_step)

subsection \<open>Random draws and byte stores\<close>

lemma randint_range:
  assumes "a \<le> b"
  shows "a \<le> fst (randint a b g) \<and> fst (randint a b g) \<le> b"
proof -
  have "0 < nat (b - a + 1)"
    using assms by simp
  then have "g 0 mod nat (b - a + 1) < nat (b - a + 1)"
    by (rule mod_less_divisor)
  then have "int (g 0 mod nat (b - a + 1)) < b - a + 1"
    by linarith
  then show ?thesis
    by (simp add: randint_def draw_def)
qed

lemma choice_member:
  "seq \<noteq> [] \<Longrightarrow> \<exists>x g'. choice seq g = Inr (x, g') \<and> x \<in> set seq"
  by (simp add: choice_def draw_def)

lemma bind_err_Inr: "bind_err (Inr x) f = f x"
  by (simp add: bind_err_def)

lemma bind_err_Inl: "bind_err (Inl e) f = Inl e"
  by (simp add: bind_err_def)

lemma bytearray_setitem_ok:
  "0 \<le> v \<Longrightarrow> v \<le> 255 \<Longrightarrow> i < length buf \<Longrightarrow>
   bytearray_setitem buf i v = Inr (buf[i := word_of_int v])"
  by (simp add: bytearray_setitem_def)

lemma bytearray_setitem_too_big: "255 < v \<Longrightarrow> bytearray_setitem buf i v = Inl ValueError"
  by (simp add: bytearray_setitem_def)

subsection \<open>The DVB-S2 branch\<close>

text \<open>
  The first three stores of the DVB-S2 branch succeed; the fourth stores 16200 or 64800
  in a byte, which \<^verbatim>\<open>bytearray\<close> refuses with \<^verbatim>\<open>ValueError\<close>.
\<close>

lemma dvbs2_fields_raises:
  assumes "10 \<le> length buf"
  shows "dvbs2_fields g buf = Inl ValueError"
proof -
  obtain modcod g1 where r1: "randint 0 15 g = (modcod, g1)"
    by (cases "randint 0 15 g")
  with randint_range [of 0 15 g] have m: "0 \<le> modcod" "modcod \<le> 255"
    by auto
  define b1 where "b1 = buf[1 := word_of_int modcod]"
  have s1: "bytearray_setitem buf 1 modcod = Inr b1"
    using m assms by (simp add: bytearray_setitem_ok b1_def)
  obtain pilot g2 where r2: "choice [0, 1::int] g1 = Inr (pilot, g2)"
    and p: "pilot \<in> set [0, 1]"
    using choice_member [of "[0, 1::int]" g1] by auto
  define b2 where "b2 = b1[2 := word_of_int pilot]"
  have s2: "bytearray_setitem b1 2 pilot = Inr b2"
    using p assms by (auto simp: bytearray_setitem_ok b1_def b2_def)
  obtain rolloff g3 where r3: "randint 20 35 g2 = (rolloff, g3)"
    by (cases "randint 20 35 g2")
  with randint_range [of 20 35 g2] have ro: "0 \<le> rolloff" "rolloff \<le> 255"
    by auto
  define b3 where "b3 = b2[3 := word_of_int rolloff]"
  have s3: "bytearray_setitem b2 3 rolloff = Inr b3"
    using ro assms by (simp add: bytearray_setitem_ok b1_def b2_def b3_def)
  obtain frame_length g4 where r4: "choice [16200, 64800::int] g3 = Inr (frame_length, g4)"
    and f: "frame_length \<in> set [16200, 64800]"
    using choice_member [of "[16200, 64800::int]" g3] by auto
  have s4: "bytearray_setitem b3 4 frame_length = Inl ValueError"
    using f by (auto simp: bytearray_setitem_too_big)
  show ?thesis
    by (simp only: dvbs2_fields_def r1 s1 r2 s2 r3 s3 r4 s4 bind_err_Inr bind_err_Inl
        prod.case)
qed

lemma heuristic_fuzz_dvbs2:
  "check_protocol (xor_pass data common_value) = DVBS2 \<Longrightarrow>
   heuristic_fuzz g data common_value = Inl ValueError"
  using check_protocol_length [of "xor_pass data common_value"]
  by (simp add: heuristic_fuzz_def Let_def dvbs2_fields_raises)

text \<open>
  Claim C1 says that for every buffer classified DVB-S2 after the XOR pass,
  \<^verbatim>\<open>heuristic_fuzz\<close> returns a buffer of the same length with offset 4 holding 16200 or
  64800. The code does not return on any such buffer: whatever the random source draws,
  the store at offset 4 raises \<^verbatim>\<open>ValueError\<close>, and no buffer is returned.
\<close>

theorem heuristic_fuzz_dvbs2_raises:
  "check_protocol (xor_pass data common_value) = DVBS2 \<Longrightarrow>
   heuristic_fuzz g data common_value = Inl ValueError
   \<and> (\<forall>buf g'. heuristic_fuzz g data common_value \<noteq> Inr (buf, g'))"
  by (simp add: heuristic_fuzz_dvbs2)

theorem heuristic_fuzz_dvbs2_raises_witness:
  "check_protocol (xor_pass [0x47, 0, 0, 0, 0, 0, 0, 0, 0, 0] (StrVal [])) = DVBS2
   \<and> heuristic_fuzz (\<lambda>k. 0) [0x47, 0, 0, 0, 0, 0, 0, 0, 0, 0] (StrVal []) = Inl ValueError"
  using heuristic_fuzz_dvbs2_raises [of "[0x47, 0, 0, 0, 0, 0, 0, 0, 0, 0]" "StrVal []" "\<lambda>k. 0"]
  by (simp add: xor_pass_empty check_protocol_def)

subsection \<open>The empty pattern\<close>

text \<open>
  Claim C9. When the mined pattern is empty (the \<^verbatim>\<open>str\<close> the miner starts from, or
  empty \<^verbatim>\<open>bytes\<close>), the XOR pass changes no byte of any buffer; so on a buffer that
  \<^verbatim>\<open>check_protocol\<close> classifies Unknown, and in particular on every buffer shorter
  than 10 bytes, \<^verbatim>\<open>heuristic_fuzz\<close> returns the contents of the buffer unchanged (and
  draws nothing from the random source).
\<close>

theorem heuristic_fuzz_empty_pattern:
  "py_len common_value = 0 \<Longrightarrow>
   xor_pass data common_value = data
   \<and> (check_protocol data = Unknown \<longrightarrow> heuristic_fuzz g data common_value = Inr (data, g))
   \<and> (length data < 10 \<longrightarrow> heuristic_fuzz g data common_value = Inr (data, g))"
  by (simp add: heuristic_fuzz_def xor_pass_empty check_protocol_short)

theorem heuristic_fuzz_empty_pattern_witness:
  "xor_pass [0x47, 2, 3] (StrVal []) = [0x47, 2, 3]
   \<and> heuristic_fuzz (\<lambda>k. k) [0x47, 2, 3] (StrVal []) = Inr ([0x47, 2, 3], \<lambda>k. k)
   \<and> heuristic_fuzz (\<lambda>k. k) [9, 8, 7, 6, 5, 4, 3, 2, 1, 0, 9] (BytesVal [])
       = Inr ([9, 8, 7, 6, 5, 4, 3, 2, 1, 0, 9], \<lambda>k. k)"
  using heuristic_fuzz_empty_pattern [of "StrVal []" "[0x47, 2, 3]" "\<lambda>k. k"]
    heuristic_fuzz_empty_pattern [of "BytesVal []" "[9, 8, 7, 6, 5, 4, 3, 2, 1, 0, 9]" "\<lambda>k. k"]
  by (simp add: check_protocol_def)

section \<open>Pattern miner: properties\<close>

subsection \<open>What \<^verbatim>\<open>count\<close> counts\<close>

lemma occurs_at_0:
  "occurs_at sub xs 0 = (length sub \<le> length xs \<and> take (length sub) xs = sub)"
  by (simp add: occurs_at_def)

lemma occurs_at_drop:
  "sub \<noteq> [] \<Longrightarrow> occurs_at sub (drop m xs) i = occurs_at sub xs (i + m)"
  by (cases sub) (auto simp: occurs_at_def add.commute)

lemma occurs_at_tl:
  "sub \<noteq> [] \<Longrightarrow> occurs_at sub (tl xs) i = occurs_at sub xs (Suc i)"
  using occurs_at_drop [of sub 1 xs i] by (simp add: drop_Suc)

lemma count_from_short:
  "sub \<noteq> [] \<Longrightarrow> length xs < length sub \<Longrightarrow> count_from sub xs = 0"
  by (subst count_from.simps) simp

lemma count_from_match:
  "sub \<noteq> [] \<Longrightarrow> \<not> length xs < length sub \<Longrightarrow> take (length sub) xs = sub \<Longrightarrow>
   count_from sub xs = Suc (count_from sub (drop (length sub) xs))"
  by (subst count_from.simps) simp

lemma count_from_mismatch:
  "sub \<noteq> [] \<Longrightarrow> \<not> length xs < length sub \<Longrightarrow> take (length sub) xs \<noteq> sub \<Longrightarrow>
   count_from sub xs = count_from sub (tl xs)"
  by (subst count_from.simps) simp

lemma count_from_positive:
  "sub \<noteq> [] \<Longrightarrow> (0 < count_from sub xs) = (\<exists>i. occurs_at sub xs i)"
proof (induction sub xs rule: count_from.induct)
  case (1 sub xs)
  show ?case
  proof (cases "length xs < length sub")
    case True
    then have "\<not> (\<exists>i. occurs_at sub xs i)"
      by (auto simp: occurs_at_def)
    with True 1(3) show ?thesis
      by (simp add: count_from_short)
  next
    case long: False
    show ?thesis
    proof (cases "take (length sub) xs = sub")
      case True
      with long have "occurs_at sub xs 0"
        by (simp add: occurs_at_0)
      then have "\<exists>i. occurs_at sub xs i" ..
      with True long 1(3) show ?thesis
        by (simp add: count_from_match)
    next
      case False
      then have no0: "\<not> occurs_at sub xs 0"
        by (simp add: occurs_at_0)
      have "(\<exists>i. occurs_at sub xs (Suc i)) = (\<exists>i. occurs_at sub xs i)"
      proof
        assume "\<exists>i. occurs_at sub xs i"
        then obtain i where i: "occurs_at sub xs i" ..
        with no0 obtain i' where "i = Suc i'" by (cases i) auto
        with i show "\<exists>i. occurs_at sub xs (Suc i)" by auto
      qed auto
      with 1(2) [OF 1(3) long False 1(3)] False long 1(3) show ?thesis
        by (simp add: occurs_at_tl count_from_mismatch)
    qed
  qed
qed

lemma count_from_twice:
  "sub \<noteq> [] \<Longrightarrow> (1 < count_from sub xs) = repeats_disjoint sub xs"
proof (induction sub xs rule: count_from.induct)
  case (1 sub xs)
  note ne = 1(3)
  show ?case
  proof (cases "length xs < length sub")
    case True
    then have "\<not> repeats_disjoint sub xs"
      by (auto simp: repeats_disjoint_def occurs_at_def)
    with True ne show ?thesis
      by (simp add: count_from_short)
  next
    case long: False
    show ?thesis
    proof (cases "take (length sub) xs = sub")
      case True
      with long have at0: "occurs_at sub xs 0"
        by (simp add: occurs_at_0)
      have "(\<exists>j. occurs_at sub (drop (length sub) xs) j) = repeats_disjoint sub xs"
      proof
        assume "\<exists>j. occurs_at sub (drop (length sub) xs) j"
        then obtain j where "occurs_at sub xs (j + length sub)"
          by (auto simp: occurs_at_drop ne)
        with at0 show "repeats_disjoint sub xs"
          unfolding repeats_disjoint_def by (intro exI [of _ 0] exI [of _ "j + length sub"]) simp
      next
        assume "repeats_disjoint sub xs"
        then obtain i j where j: "occurs_at sub xs j" and "i + length sub \<le> j"
          by (auto simp: repeats_disjoint_def)
        then have "occurs_at sub xs ((j - length sub) + length sub)"
          by simp
        then have "occurs_at sub (drop (length sub) xs) (j - length sub)"
          by (simp only: occurs_at_drop [OF ne])
        then show "\<exists>j. occurs_at sub (drop (length sub) xs) j" ..
      qed
      with True long ne show ?thesis
        by (simp add: count_from_positive count_from_match)
    next
      case False
      then have no0: "\<not> occurs_at sub xs 0"
        by (simp add: occurs_at_0)
      have "repeats_disjoint sub (tl xs) = repeats_disjoint sub xs"
      proof
        assume "repeats_disjoint sub (tl xs)"
        then obtain i j where "occurs_at sub xs (Suc i)" "occurs_at sub xs (Suc j)"
          "i + length sub \<le> j"
          by (auto simp: repeats_disjoint_def occurs_at_tl ne)
        then show "repeats_disjoint sub xs"
          unfolding repeats_disjoint_def by (intro exI [of _ "Suc i"] exI [of _ "Suc j"]) simp
      next
        assume "repeats_disjoint sub xs"
        then obtain i j where i: "occurs_at sub xs i" and j: "occurs_at sub xs j"
          and ij: "i + length sub \<le> j"
          by (auto simp: repeats_disjoint_def)
        from i no0 obtain i' where i': "i = Suc i'" by (cases i) auto
        with ij obtain j' where j': "j = Suc j'" by (cases j) auto
        from i j ij show "repeats_disjoint sub (tl xs)"
          unfolding repeats_disjoint_def i' j'
          by (intro exI [of _ i'] exI [of _ j']) (simp add: occurs_at_tl ne)
      qed
      with 1(2) [OF ne long False ne] False long ne show ?thesis
        by (simp add: count_from_mismatch)
    qed
  qed
qed


subsection \<open>The two loops\<close>

lemma mine_step_eq:
  "start + len \<le> length data \<Longrightarrow>
   mine_step data len longest start =
     (if accepted data len start \<and> py_len longest < len
      then BytesVal (take len (drop start data)) else longest)"
  by (simp add: mine_step_def accepted_def Let_def)

lemma mine_length_prefix:
  assumes "m \<le> length data - len" and "py_len longest < len"
  shows "(foldl (mine_step data len) longest [0..<m] = longest
            \<and> (\<forall>s<m. \<not> accepted data len s))
         \<or> (\<exists>s<m. foldl (mine_step data len) longest [0..<m] = BytesVal (take len (drop s data))
                \<and> accepted data len s \<and> (\<forall>s' < s. \<not> accepted data len s'))"
  using assms(1)
proof (induction m)
  case 0
  show ?case by simp
next
  case (Suc m)
  let ?r = "foldl (mine_step data len) longest [0..<m]"
  from Suc.prems have m: "m + len \<le> length data" and "m \<le> length data - len"
    by simp_all
  with Suc.IH consider
      (none) "?r = longest" "\<forall>s<m. \<not> accepted data len s"
    | (found) s where "s < m" "?r = BytesVal (take len (drop s data))"
        "accepted data len s" "\<forall>s' < s. \<not> accepted data len s'"
    by blast
  then show ?case
  proof cases
    case none
    show ?thesis
    proof (cases "accepted data len m")
      case True
      with none assms(2) m have "foldl (mine_step data len) longest [0..<Suc m]
          = BytesVal (take len (drop m data))"
        by (simp add: mine_step_eq)
      with True none(2) show ?thesis
        by blast
    next
      case False
      with none m have "foldl (mine_step data len) longest [0..<Suc m] = longest"
        by (simp add: mine_step_eq)
      moreover from False none(2) have "\<forall>s<Suc m. \<not> accepted data len s"
        by (simp add: less_Suc_eq)
      ultimately show ?thesis
        by blast
    qed
  next
    case found
    from found(1) m have "length (take len (drop s data)) = len"
      by simp
    with found(2) m have "foldl (mine_step data len) longest [0..<Suc m]
        = BytesVal (take len (drop s data))"
      by (simp add: mine_step_eq)
    with found show ?thesis
      by (meson less_Suc_eq)
  qed
qed

lemma mine_length_cases:
  assumes "py_len longest < len"
  shows "(mine_length data longest len = longest
            \<and> (\<forall>s<length data - len. \<not> accepted data len s))
         \<or> (\<exists>s<length data - len.
                mine_length data longest len = BytesVal (take len (drop s data))
                \<and> accepted data len s \<and> (\<forall>s' < s. \<not> accepted data len s'))"
  unfolding mine_length_def using mine_length_prefix [OF order_refl assms] .

lemma mined_py_len: "mined data k r \<Longrightarrow> 0 < k \<Longrightarrow> py_len r < k"
  by (auto simp: mined_def)

lemma mined_step:
  assumes "mined data k r" and "0 < k"
  shows "mined data (Suc k) (mine_length data r k)"
proof -
  from assms have len: "py_len r < k"
    by (rule mined_py_len)
  from mine_length_cases [OF len, of data] consider
      (none) "mine_length data r k = r" "\<forall>s<length data - k. \<not> accepted data k s"
    | (found) s where "s < length data - k"
        "mine_length data r k = BytesVal (take k (drop s data))"
        "accepted data k s" "\<forall>s' < s. \<not> accepted data k s'"
    by blast
  then show ?thesis
  proof cases
    case none
    from assms(1) show ?thesis
      unfolding mined_def none(1)
    proof (elim disjE exE conjE)
      assume "r = StrVal []"
        and "\<forall>l s. 0 < l \<and> l < k \<and> s < length data - l \<longrightarrow> \<not> accepted data l s"
      with none(2) show "(r = StrVal [] \<and> (\<forall>l s. 0 < l \<and> l < Suc k \<and> s < length data - l \<longrightarrow> \<not> accepted data l s))
      \<or> (\<exists>l s. 0 < l \<and> l < Suc k \<and> s < length data - l
            \<and> r = BytesVal (take l (drop s data)) \<and> accepted data l s
            \<and> (\<forall>s' < s. \<not> accepted data l s')
            \<and> (\<forall>l' s'. l < l' \<and> l' < Suc k \<and> s' < length data - l' \<longrightarrow> \<not> accepted data l' s'))"
        by (auto simp: less_Suc_eq)
    next
      fix l s
      assume "0 < l" "l < k" "s < length data - l" "r = BytesVal (take l (drop s data))"
        "accepted data l s" "\<forall>s' < s. \<not> accepted data l s'"
        "\<forall>l' s'. l < l' \<and> l' < k \<and> s' < length data - l' \<longrightarrow> \<not> accepted data l' s'"
      with none(2) have "0 < l \<and> l < Suc k \<and> s < length data - l
            \<and> r = BytesVal (take l (drop s data)) \<and> accepted data l s
            \<and> (\<forall>s' < s. \<not> accepted data l s')
            \<and> (\<forall>l' s'. l < l' \<and> l' < Suc k \<and> s' < length data - l' \<longrightarrow> \<not> accepted data l' s')"
        by (auto simp: less_Suc_eq)
      then show "(r = StrVal [] \<and> (\<forall>l s. 0 < l \<and> l < Suc k \<and> s < length data - l \<longrightarrow> \<not> accepted data l s))
      \<or> (\<exists>l s. 0 < l \<and> l < Suc k \<and> s < length data - l
            \<and> r = BytesVal (take l (drop s data)) \<and> accepted data l s
            \<and> (\<forall>s' < s. \<not> accepted data l s')
            \<and> (\<forall>l' s'. l < l' \<and> l' < Suc k \<and> s' < length data - l' \<longrightarrow> \<not> accepted data l' s'))"
        by blast
    qed
  next
    case found
    with assms(2) have "0 < k \<and> k < Suc k \<and> s < length data - k
            \<and> mine_length data r k = BytesVal (take k (drop s data)) \<and> accepted data k s
            \<and> (\<forall>s' < s. \<not> accepted data k s')
            \<and> (\<forall>l' s'. k < l' \<and> l' < Suc k \<and> s' < length data - l' \<longrightarrow> \<not> accepted data l' s')"
      by auto
    then show ?thesis
      unfolding mined_def by blast
  qed
qed

lemma mined_prefix:
  "mined data (Suc k) (foldl (mine_length data) (StrVal []) [1..<Suc k])"
proof (induction k)
  case 0
  show ?case by (simp add: mined_def)
next
  case (Suc k)
  have "[1..<Suc (Suc k)] = [1..<Suc k] @ [Suc k]"
    by simp
  then have "foldl (mine_length data) (StrVal []) [1..<Suc (Suc k)]
      = mine_length data (foldl (mine_length data) (StrVal []) [1..<Suc k]) (Suc k)"
    by (simp only: foldl_append foldl_Cons foldl_Nil)
  with mined_step [OF Suc.IH] show ?case
    by simp
qed

lemma mined_build:
  "mined data (length data) (build_common_values_from_file data)"
proof (cases "length data")
  case 0
  then show ?thesis
    by (simp add: build_common_values_from_file_def mined_def)
next
  case (Suc k)
  with mined_prefix [of data k] show ?thesis
    by (simp add: build_common_values_from_file_def)
qed


lemma accepted_iff:
  assumes "0 < l" and "s + l \<le> length data"
  shows "accepted data l s = repeats_disjoint (take l (drop s data)) data"
proof -
  from assms have "take l (drop s data) \<noteq> []"
    by auto
  from count_from_twice [OF this, of data] show ?thesis
    by (simp only: accepted_def py_count_def)
qed

lemma repeats_disjoint_bounds:
  assumes "repeats_disjoint seg data" and "seg \<noteq> []"
  shows "0 < length seg" and "2 * length seg \<le> length data"
  using assms by (auto simp: repeats_disjoint_def occurs_at_def)

lemma repeats_disjoint_accepted:
  assumes "repeats_disjoint seg data" and "seg \<noteq> []" and "occurs_at seg data s"
    and "s < length data - length seg"
  shows "accepted data (length seg) s"
proof -
  from assms(3) have "take (length seg) (drop s data) = seg" and "s + length seg \<le> length data"
    by (simp_all add: occurs_at_def)
  with assms(1,2) show ?thesis
    by (simp add: accepted_iff)
qed

lemma repeats_disjoint_first:
  assumes "repeats_disjoint seg data" and "seg \<noteq> []"
  obtains i where "occurs_at seg data i" and "i < length data - length seg"
proof -
  from assms(1) obtain i j where i: "occurs_at seg data i" and j: "occurs_at seg data j"
    and ij: "i + length seg \<le> j"
    by (auto simp: repeats_disjoint_def)
  from j have "j + length seg \<le> length data"
    by (simp add: occurs_at_def)
  with ij assms(2) have "i < length data - length seg"
    by (cases seg) auto
  with i that show ?thesis
    by blast
qed

lemma mined_ABAB:
  "build_common_values_from_file [0x41, 0x42, 0x41, 0x42] = BytesVal [0x41, 0x42]"
  by code_simp

lemma mined_AAA: "build_common_values_from_file [0x41, 0x41, 0x41] = BytesVal [0x41]"
  by code_simp

subsection \<open>The result of the miner\<close>

text \<open>
  Claim C2, as stated, counts occurrences at possibly overlapping positions. The code
  counts with \<^verbatim>\<open>data.count\<close>, which skips overlapping occurrences: in the buffer
  \<^verbatim>\<open>AAA\<close> the sequence \<^verbatim>\<open>AA\<close> occurs at offsets 0 and 1, and the miner returns the
  shorter \<^verbatim>\<open>A\<close>.
\<close>

theorem build_common_values_overlap_counterexample:
  "build_common_values_from_file [0x41, 0x41, 0x41] = BytesVal [0x41]
   \<and> occurrences [0x41, 0x41] [0x41, 0x41, 0x41 :: byte] = [0, 1]"
proof -
  have "occurrences [0x41, 0x41] [0x41, 0x41, 0x41 :: byte] = [0, 1]"
    by code_simp
  with mined_AAA show ?thesis
    by simp
qed

text \<open>
  Claim C2, amended: for every reference buffer the miner returns the longest
  contiguous byte sequence that occurs at least twice at positions that do not overlap;
  among the sequences of that length it returns the one whose first offset is least
  (the first found when lengths and then offsets ascend); when no non-empty sequence
  repeats in this way it returns the empty string it started from.
\<close>

theorem build_common_values_longest_disjoint:
  "(case build_common_values_from_file data of
      StrVal s \<Rightarrow> s = [] \<and> (\<forall>seg. seg \<noteq> [] \<longrightarrow> \<not> repeats_disjoint seg data)
    | BytesVal seg \<Rightarrow>
        seg \<noteq> [] \<and> repeats_disjoint seg data
        \<and> (\<forall>seg'. repeats_disjoint seg' data \<longrightarrow> length seg' \<le> length seg)
        \<and> (\<exists>s. occurs_at seg data s
               \<and> (\<forall>seg' s'. length seg' = length seg \<and> repeats_disjoint seg' data
                     \<and> occurs_at seg' data s' \<longrightarrow> s \<le> s')))"
proof -
  let ?r = "build_common_values_from_file data"
  let ?n = "length data"
  from mined_build [of data] consider
      (none) "?r = StrVal []"
        "\<forall>l s. 0 < l \<and> l < ?n \<and> s < ?n - l \<longrightarrow> \<not> accepted data l s"
    | (found) l s where "0 < l" "l < ?n" "s < ?n - l"
        "?r = BytesVal (take l (drop s data))" "accepted data l s"
        "\<forall>s' < s. \<not> accepted data l s'"
        "\<forall>l' s'. l < l' \<and> l' < ?n \<and> s' < ?n - l' \<longrightarrow> \<not> accepted data l' s'"
    unfolding mined_def by blast
  then show ?thesis
  proof cases
    case none
    have "\<not> repeats_disjoint seg data" if "seg \<noteq> []" for seg
    proof
      assume rep: "repeats_disjoint seg data"
      from rep that obtain i where i: "occurs_at seg data i" "i < ?n - length seg"
        by (rule repeats_disjoint_first)
      with rep that have "accepted data (length seg) i"
        by (simp add: repeats_disjoint_accepted)
      moreover from repeats_disjoint_bounds [OF rep that]
      have "0 < length seg" "length seg < ?n"
        by linarith+
      ultimately show False
        using none(2) i(2) by blast
    qed
    with none(1) show ?thesis
      by simp
  next
    case found
    let ?seg = "take l (drop s data)"
    from found(3) have sl: "s + l \<le> ?n"
      by simp
    then have len: "length ?seg = l"
      by simp
    with found(1) have ne: "?seg \<noteq> []"
      by auto
    from found(1,5) sl have rep: "repeats_disjoint ?seg data"
      by (simp add: accepted_iff)
    have longest: "length seg' \<le> length ?seg" if rep': "repeats_disjoint seg' data" for seg'
    proof (cases "seg' = []")
      case True
      then show ?thesis by simp
    next
      case False
      from rep' False obtain i where i: "occurs_at seg' data i" "i < ?n - length seg'"
        by (rule repeats_disjoint_first)
      with rep' False have "accepted data (length seg') i"
        by (simp add: repeats_disjoint_accepted)
      moreover from repeats_disjoint_bounds [OF rep' False] have "length seg' < ?n"
        by linarith
      ultimately have "\<not> l < length seg'"
        using found(7) i(2) by blast
      with len show ?thesis
        by simp
    qed
    have at: "occurs_at ?seg data s"
      using sl by (simp add: occurs_at_def)
    have first: "s \<le> s'"
      if "length seg' = length ?seg" "repeats_disjoint seg' data" "occurs_at seg' data s'"
      for seg' s'
    proof (cases "s' < ?n - l")
      case True
      from that(1) len ne have "seg' \<noteq> []"
        by auto
      with that True len have "accepted data l s'"
        using repeats_disjoint_accepted [of seg' data s'] by simp
      with found(6) show ?thesis
        by (meson not_le_imp_less)
    next
      case False
      with found(3) show ?thesis
        by simp
    qed
    from ne rep longest at first have "?seg \<noteq> [] \<and> repeats_disjoint ?seg data
        \<and> (\<forall>seg'. repeats_disjoint seg' data \<longrightarrow> length seg' \<le> length ?seg)
        \<and> (\<exists>s. occurs_at ?seg data s
               \<and> (\<forall>seg' s'. length seg' = length ?seg \<and> repeats_disjoint seg' data
                     \<and> occurs_at seg' data s' \<longrightarrow> s \<le> s'))"
      by blast
    with found(4) show ?thesis
      by simp
  qed
qed

theorem build_common_values_longest_disjoint_witness:
  "build_common_values_from_file [0x41, 0x42, 0x41, 0x42] = BytesVal [0x41, 0x42]
   \<and> repeats_disjoint [0x41, 0x42] [0x41, 0x42, 0x41, 0x42 :: byte]
   \<and> \<not> repeats_disjoint [0x41, 0x42, 0x41] [0x41, 0x42, 0x41, 0x42 :: byte]"
  using build_common_values_longest_disjoint [of "[0x41, 0x42, 0x41, 0x42]"]
  by (auto simp: mined_ABAB)

text \<open>
  Claim C10. Every non-empty sequence the miner returns is a \<^verbatim>\<open>bytes\<close> slice that
  occurs at two offsets of the reference buffer whose windows do not overlap (the
  second starts at or after the end of the first, so the two offsets differ), and it is
  strictly shorter than the buffer. Anything else it returns is the empty string.
\<close>

theorem build_common_values_disjoint_repeat:
  "(case build_common_values_from_file data of
      StrVal s \<Rightarrow> s = []
    | BytesVal seg \<Rightarrow>
        seg \<noteq> [] \<and> length seg < length data
        \<and> (\<exists>i j. occurs_at seg data i \<and> occurs_at seg data j \<and> i + length seg \<le> j))"
proof -
  let ?r = "build_common_values_from_file data"
  let ?n = "length data"
  from mined_build [of data] consider
      (none) "?r = StrVal []"
    | (found) l s where "0 < l" "l < ?n" "s < ?n - l"
        "?r = BytesVal (take l (drop s data))" "accepted data l s"
    unfolding mined_def by blast
  then show ?thesis
  proof cases
    case none
    then show ?thesis by simp
  next
    case found
    from found(3) have sl: "s + l \<le> ?n"
      by simp
    with found(1,5) have "repeats_disjoint (take l (drop s data)) data"
      by (simp add: accepted_iff)
    with found sl show ?thesis
      by (auto simp: repeats_disjoint_def)
  qed
qed

theorem build_common_values_disjoint_repeat_witness:
  "build_common_values_from_file [0x41, 0x42, 0x41, 0x42] = BytesVal [0x41, 0x42]
   \<and> (\<exists>i j. occurs_at [0x41, 0x42] [0x41, 0x42, 0x41, 0x42 :: byte] i
          \<and> occurs_at [0x41, 0x42] [0x41, 0x42, 0x41, 0x42 :: byte] j \<and> i + 2 \<le> j)"
  using build_common_values_disjoint_repeat [of "[0x41, 0x42, 0x41, 0x42]"]
  by (simp add: mined_ABAB)

section \<open>Fuzz engine: the length of the result\<close>

text \<open>
  \<^verbatim>\<open>random_fuzz\<close> always returns, with a buffer of the length of its input;
  \<^verbatim>\<open>heuristic_fuzz\<close> does so whenever the buffer is not classified DVB-S2 after the XOR
  pass.
\<close>

lemma random_fuzz_step_length:
  assumes "i < length buf"
  shows "\<exists>buf' g'. random_fuzz_step (buf, g) i = Inr (buf', g') \<and> length buf' = length buf"
proof -
  obtain hit g1 where h: "random_below_0_05 g = (hit, g1)"
    by (cases "random_below_0_05 g")
  obtain v g2 where r: "randint 0 255 g1 = (v, g2)"
    by (cases "randint 0 255 g1")
  with randint_range [of 0 255 g1] have "0 \<le> v" "v \<le> 255"
    by auto
  with assms have "bytearray_setitem buf i v = Inr (buf[i := word_of_int v])"
    by (simp add: bytearray_setitem_ok)
  with h r show ?thesis
    by (simp add: random_fuzz_step_def bind_err_Inr)
qed

lemma random_fuzz_loop_length:
  "\<forall>i \<in> set is. i < length buf \<Longrightarrow>
   \<exists>buf' g'. fold_err random_fuzz_step (buf, g) is = Inr (buf', g') \<and> length buf' = length buf"
proof (induction "is" arbitrary: buf g)
  case Nil
  show ?case by simp
next
  case (Cons i "is")
  from Cons.prems have "i < length buf"
    by simp
  then obtain buf1 g1 where s: "random_fuzz_step (buf, g) i = Inr (buf1, g1)"
    and l: "length buf1 = length buf"
    using random_fuzz_step_length by blast
  from Cons.prems l have "\<forall>i \<in> set is. i < length buf1"
    by simp
  from Cons.IH [OF this, of g1] s l show ?case
    by (simp add: bind_err_Inr)
qed

lemma random_fuzz_length:
  "\<exists>buf g'. random_fuzz g data = Inr (buf, g') \<and> length buf = length data"
  unfolding random_fuzz_def by (rule random_fuzz_loop_length) simp

lemma ccsds_fields_length:
  assumes "10 \<le> length buf"
  shows "\<exists>buf' g'. ccsds_fields g buf = Inr (buf', g') \<and> length buf' = length buf"
proof -
  obtain spacecraft_id g1 where r1: "randint 1 255 g = (spacecraft_id, g1)"
    by (cases "randint 1 255 g")
  with randint_range [of 1 255 g] have v1: "0 \<le> spacecraft_id" "spacecraft_id \<le> 255"
    by auto
  define b1 where "b1 = buf[1 := word_of_int spacecraft_id]"
  have s1: "bytearray_setitem buf 1 spacecraft_id = Inr b1"
    using v1 assms by (simp add: bytearray_setitem_ok b1_def)
  obtain virtual_channel g2 where r2: "randint 0 7 g1 = (virtual_channel, g2)"
    by (cases "randint 0 7 g1")
  with randint_range [of 0 7 g1] have v2: "0 \<le> virtual_channel" "virtual_channel \<le> 255"
    by auto
  define b2 where "b2 = b1[2 := word_of_int virtual_channel]"
  have s2: "bytearray_setitem b1 2 virtual_channel = Inr b2"
    using v2 assms by (simp add: bytearray_setitem_ok b1_def b2_def)
  obtain frame_length g3 where r3: "randint 1 10 g2 = (frame_length, g3)"
    by (cases "randint 1 10 g2")
  with randint_range [of 1 10 g2] have v3: "0 \<le> frame_length" "frame_length \<le> 255"
    by auto
  define b3 where "b3 = b2[3 := word_of_int frame_length]"
  have s3: "bytearray_setitem b2 3 frame_length = Inr b3"
    using v3 assms by (simp add: bytearray_setitem_ok b1_def b2_def b3_def)
  obtain reed_solomon g4 where r4: "choice [1, 0::int] g3 = Inr (reed_solomon, g4)"
    and v4: "reed_solomon \<in> set [1, 0]"
    using choice_member [of "[1, 0::int]" g3] by auto
  define b4 where "b4 = b3[4 := word_of_int reed_solomon]"
  have s4: "bytearray_setitem b3 4 reed_solomon = Inr b4"
    using v4 assms by (auto simp: bytearray_setitem_ok b1_def b2_def b3_def b4_def)
  have "ccsds_fields g buf = Inr (b4, g4)"
    by (simp only: ccsds_fields_def r1 s1 r2 s2 r3 s3 r4 s4 bind_err_Inr prod.case)
  moreover have "length b4 = length buf"
    by (simp add: b1_def b2_def b3_def b4_def)
  ultimately show ?thesis
    by blast
qed

lemma heuristic_fuzz_length:
  assumes "check_protocol (xor_pass data common_value) \<noteq> DVBS2"
  shows "\<exists>buf g'. heuristic_fuzz g data common_value = Inr (buf, g')
           \<and> length buf = length data"
proof (cases "check_protocol (xor_pass data common_value)")
  case DVBS2
  with assms show ?thesis by simp
next
  case CCSDS
  then have "10 \<le> length (xor_pass data common_value)"
    using check_protocol_length [of "xor_pass data common_value"] by simp
  from ccsds_fields_length [OF this, of g] CCSDS show ?thesis
    by (simp add: heuristic_fuzz_def length_xor_pass)
next
  case Unknown
  then show ?thesis
    by (simp add: heuristic_fuzz_def length_xor_pass)
qed

lemma mined_dvbs2_frame:
  "build_common_values_from_file [0x47, 0, 0, 0, 0, 0, 0, 0, 0, 0] = BytesVal [0, 0, 0, 0]"
  by code_simp

lemma xor_dvbs2_frame:
  "xor_pass [0x47, 0, 0, 0, 0, 0, 0, 0, 0, 0] (BytesVal [0, 0, 0, 0])
     = [0x47, 0xFF, 0xFF, 0xFF, 0xFF, 0xFF, 0xFF, 0xFF, 0xFF, 0]"
  by code_simp

text \<open>
  Claim C8 says that each strategy returns a buffer of the length of its input, on any
  buffer. \<^verbatim>\<open>heuristic_fuzz\<close> returns nothing on a DVB-S2 frame: on the ten bytes
  \<^verbatim>\<open>47 00 00 00 00 00 00 00 00 00\<close>, with the pattern mined from these same bytes and
  any random source, it raises \<^verbatim>\<open>ValueError\<close> at the store of the frame length.
\<close>

theorem heuristic_fuzz_dvbs2_session_raises:
  "heuristic_fuzz g [0x47, 0, 0, 0, 0, 0, 0, 0, 0, 0]
     (build_common_values_from_file [0x47, 0, 0, 0, 0, 0, 0, 0, 0, 0]) = Inl ValueError"
proof -
  have "check_protocol (xor_pass [0x47, 0, 0, 0, 0, 0, 0, 0, 0, 0] (BytesVal [0, 0, 0, 0]))
      = DVBS2"
    by (simp add: xor_dvbs2_frame check_protocol_def)
  then show ?thesis
    by (simp only: mined_dvbs2_frame heuristic_fuzz_dvbs2)
qed

section \<open>Collaborator processes: properties\<close>

lemma utf8_decode_cases:
  "utf8_decode bs = Inl UnicodeDecodeError \<or> (\<exists>s. utf8_decode bs = Inr s)"
  by (simp add: utf8_decode_def split: option.split)

lemma utf8_decode_FF: "utf8_decode [0xFF] = Inl UnicodeDecodeError"
  by (simp add: utf8_decode_def)

text \<open>
  What the two functions do on streams that decode and print: a non-empty error stream
  makes \<^verbatim>\<open>generate_and_send_gnss_signal\<close> raise, an empty one lets it print the output;
  \<^verbatim>\<open>run_gnuradio_script\<close> prints a non-empty error stream and returns.
\<close>

lemma gnss_error_stream_raises:
  "popen (gnss_cmd lat lon altitude time) = (output, err) \<Longrightarrow> err \<noteq> [] \<Longrightarrow>
   isl (generate_and_send_gnss_signal enc popen lat lon altitude time)"
  using utf8_decode_cases [of err]
  by (auto simp: generate_and_send_gnss_signal_def bind_err_def)

lemma gnss_error_stream_runtime_error:
  "popen (gnss_cmd lat lon altitude time) = (output, err) \<Longrightarrow> err \<noteq> [] \<Longrightarrow>
   utf8_decode err = Inr msg \<Longrightarrow>
   generate_and_send_gnss_signal enc popen lat lon altitude time
     = Inl (RuntimeError (str_of ''Error in GPS-SDR-SIM: '' @ msg))"
  by (simp add: generate_and_send_gnss_signal_def bind_err_def)

lemma gnss_output_printed:
  "popen (gnss_cmd lat lon altitude time) = (output, []) \<Longrightarrow>
   utf8_decode output = Inr out \<Longrightarrow>
   py_print enc (str_of ''GNSS Signal Generation Output: '' @ out) = Inr line \<Longrightarrow>
   generate_and_send_gnss_signal enc popen lat lon altitude time = Inr [line]"
  by (simp add: generate_and_send_gnss_signal_def bind_err_def)

lemma run_gnuradio_script_logs:
  "popen (gnuradio_cmd script args) = (output, err) \<Longrightarrow> err \<noteq> [] \<Longrightarrow>
   utf8_decode err = Inr msg \<Longrightarrow> py_print enc (str_of ''Error: '' @ msg) = Inr line \<Longrightarrow>
   run_gnuradio_script enc popen script args = Inr [line]"
  by (simp add: run_gnuradio_script_def bind_err_def)

text \<open>
  Claim C6 says that \<^verbatim>\<open>generate_and_send_gnss_signal\<close> raises if and only if the error
  stream of the collaborator is non-empty, completing normally on an empty one, and
  that \<^verbatim>\<open>run_gnuradio_script\<close> never raises on a non-empty error stream. Both functions
  decode the stream they report, strictly, and catch nothing: when the collaborator
  writes the byte \<^verbatim>\<open>FF\<close> to its output and nothing to its error stream, the first
  raises \<^verbatim>\<open>UnicodeDecodeError\<close>; when a script writes the byte \<^verbatim>\<open>FF\<close> to its error
  stream, the second raises it too. This holds for every encoding of the standard
  output and every argument.
\<close>

theorem collaborator_undecodable_raises:
  "generate_and_send_gnss_signal enc (\<lambda>cmd. ([0xFF], [])) lat lon altitude time
     = Inl UnicodeDecodeError
   \<and> run_gnuradio_script enc (\<lambda>cmd. ([], [0xFF])) script args = Inl UnicodeDecodeError"
  by (simp add: generate_and_send_gnss_signal_def run_gnuradio_script_def utf8_decode_FF
      bind_err_Inl)

text \<open>
  The same two functions on streams that decode but do not print: with a standard
  output that encodes ASCII only, the output \<^verbatim>\<open>C3 A9\<close> (the letter e with an acute
  accent) on an empty error stream makes the first raise \<^verbatim>\<open>UnicodeEncodeError\<close>, and
  the same bytes on the error stream make the second raise it.
\<close>

lemma collaborator_unprintable_raises:
  "generate_and_send_gnss_signal (\<lambda>c. False) (\<lambda>cmd. ([0xC3, 0xA9], [])) lat lon altitude time
     = Inl UnicodeEncodeError
   \<and> run_gnuradio_script (\<lambda>c. False) (\<lambda>cmd. ([], [0xC3, 0xA9])) script args
     = Inl UnicodeEncodeError"
  by (simp add: generate_and_send_gnss_signal_def run_gnuradio_script_def utf8_decode_def
      py_print_def str_of_def continuation_def bind_err_def)

section \<open>Recorder control channel: properties\<close>

text \<open>
  On commands that are valid UTF-8 the loop applies the transition of each command in
  the order of arrival and closes every connection.
\<close>

lemma serve_connection_decoded:
  "utf8_decode received = Inr decoded \<Longrightarrow>
   serve_connection r received = Inr (control_transition r (strip decoded))"
  by (simp add: serve_connection_def control_transition_def bind_err_Inr Let_def)

lemma serve_connection_undecodable:
  "utf8_decode received = Inl e \<Longrightarrow> serve_connection r received = Inl e"
  by (simp add: serve_connection_def bind_err_Inl)

lemma listen_for_commands_decoded:
  "list_all2 (\<lambda>received decoded. utf8_decode received = Inr decoded) arrivals decodeds \<Longrightarrow>
   listen_for_commands r arrivals =
     (foldl control_transition r (map strip decodeds),
      replicate (length arrivals) ConnClosed, None)"
proof (induction arrivals decodeds arbitrary: r rule: list_all2_induct)
  case Nil
  show ?case by simp
next
  case (Cons received arrivals decoded decodeds)
  from Cons.hyps(1) have "serve_connection r received = Inr (control_transition r (strip decoded))"
    by (rule serve_connection_decoded)
  with Cons.IH [of "control_transition r (strip decoded)"] show ?case
    by simp
qed

lemma listen_for_commands_undecodable:
  "utf8_decode received = Inl e \<Longrightarrow>
   listen_for_commands r (received # later) = (r, [ConnReleased], Some e)"
  by (simp add: serve_connection_undecodable)

lemma decode_START: "utf8_decode [0x53, 0x54, 0x41, 0x52, 0x54] = Inr (str_of ''START'')"
  by (simp add: utf8_decode_def str_of_def)

lemma serve_START:
  "serve_connection r [0x53, 0x54, 0x41, 0x52, 0x54] = Inr (start_recording r)"
  by (simp add: serve_connection_decoded [OF decode_START] control_transition_def strip_def
      isspace_def str_of_def)

text \<open>
  Claim C7 says that the state of the recorder changes on \<^verbatim>\<open>START\<close> and on \<^verbatim>\<open>STOP\<close>, in
  the order the commands are received, and that any other command leaves the state
  unchanged with the connection closed by the loop. A command that is not valid UTF-8 ends
  the listener instead. When \<^verbatim>\<open>START\<close>, then the byte \<^verbatim>\<open>FF\<close>, then \<^verbatim>\<open>STOP\<close> arrive,
  the recorder starts recording, the second pass raises \<^verbatim>\<open>UnicodeDecodeError\<close> before
  \<^verbatim>\<open>conn.close()\<close>, and the \<^verbatim>\<open>STOP\<close> is never served: the recorder is left recording.
\<close>

theorem listener_dies_on_undecodable:
  "listen_for_commands
       \<lparr>file_sink = None, connections = [], sinks_created = 0, printed = []\<rparr>
       [[0x53, 0x54, 0x41, 0x52, 0x54], [0xFF], [0x53, 0x54, 0x4F, 0x50]]
     = (\<lparr>file_sink = Some 0, connections = [0], sinks_created = 1,
         printed = [str_of ''Recording started.'']\<rparr>,
        [ConnClosed, ConnReleased], Some UnicodeDecodeError)"
  by (simp add: serve_START serve_connection_undecodable [OF utf8_decode_FF]
      start_recording_def)

end
